theory Spec2Isabelle
  imports Main "HOL-Library.Multiset"
begin

section \<open>Library functions the theater code calls\<close>

subsection \<open>Strings: \<^verbatim>\<open>c_str\<close>, \<^verbatim>\<open>strtol\<close>, \<^verbatim>\<open>std::to_string\<close>\<close>

text \<open>
  A \<^verbatim>\<open>std::string\<close> is a list of bytes and may hold the byte 0. \<^verbatim>\<open>c_str()\<close> hands the
  bytes to C functions, which stop reading at the first byte 0.
\<close>

definition c_str :: "string \<Rightarrow> string" where
  "c_str s = takeWhile (\<lambda>c. c \<noteq> CHR 0x00) s"

text \<open>\<^verbatim>\<open>isspace\<close> and \<^verbatim>\<open>isdigit\<close> of the C locale.\<close>

definition isspace :: "char \<Rightarrow> bool" where
  "isspace c = (c \<in> set [CHR '' '', CHR 0x09, CHR 0x0A, CHR 0x0B, CHR 0x0C, CHR 0x0D])"

definition isdigit :: "char \<Rightarrow> bool" where
  "isdigit c = (c \<in> set ''0123456789'')"

definition digit_val :: "char \<Rightarrow> int" where
  "digit_val c = of_char c - 48"

text \<open>The number a run of decimal digits stands for, read from the left.\<close>

definition decimal_value :: "string \<Rightarrow> int" where
  "decimal_value ds = foldl (\<lambda>a c. 10 * a + digit_val c) 0 ds"

text \<open>The range of \<^verbatim>\<open>long\<close> (64 bits) and of \<^verbatim>\<open>int\<close> (32 bits).\<close>

definition LONG_MAX :: int where
  "LONG_MAX = 2 ^ 63 - 1"

definition LONG_MIN :: int where
  "LONG_MIN = - (2 ^ 63)"

definition INT_MAX :: int where
  "INT_MAX = 2 ^ 31 - 1"

text \<open>
  \<^verbatim>\<open>strtol(nptr, &endp, 10)\<close> on the bytes before the terminating 0: white space is
  skipped, one sign is read, then the longest run of decimal digits. The result is the
  value, clamped to the range of \<^verbatim>\<open>long\<close>, and the unread rest (\<^verbatim>\<open>endp\<close>). With no digit
  at all the value is 0 and \<^verbatim>\<open>endp\<close> is \<^verbatim>\<open>nptr\<close>.
\<close>

definition strtol :: "string \<Rightarrow> int \<times> string" where
  "strtol nptr =
     (let s1 = dropWhile isspace nptr;
          neg = (case s1 of [] \<Rightarrow> False | c # r \<Rightarrow> c = CHR ''-'');
          s2 = (case s1 of [] \<Rightarrow> s1
                | c # r \<Rightarrow> if c = CHR ''-'' then r else if c = CHR ''+'' then r else s1);
          ds = takeWhile isdigit s2;
          v = decimal_value ds
      in if ds = [] then (0, nptr)
         else (if neg then max LONG_MIN (- v) else min LONG_MAX v, dropWhile isdigit s2))"

text \<open>\<^verbatim>\<open>std::to_string\<close> of an integer: its decimal digits, after \<^verbatim>\<open>-\<close> when negative.\<close>

fun digits :: "nat \<Rightarrow> string" where
  "digits n =
     (if n < 10 then [''0123456789'' ! n]
      else digits (n div 10) @ [''0123456789'' ! (n mod 10)])"

declare digits.simps [simp del]

definition to_string :: "int \<Rightarrow> string" where
  "to_string n = (if n < 0 then CHR ''-'' # digits (nat (- n)) else digits (nat n))"

subsection \<open>Local time and sorting\<close>

text \<open>
  \<^verbatim>\<open>std::tm\<close>. The code reads and writes the hour, the minute and the second only; the
  other fields (day, month, year, daylight saving flag) are the component \<open>tm_date\<close>.
\<close>

record 'd tm =
  tm_sec :: int
  tm_min :: int
  tm_hour :: int
  tm_date :: 'd

text \<open>
  The platform: \<^verbatim>\<open>localtime_r\<close> and \<^verbatim>\<open>mktime\<close> depend on the time zone of the process, and
  \<^verbatim>\<open>std::sort\<close> may order elements that compare equal in any way. The theater is modelled
  for every choice of the three.
\<close>

record 'd platform =
  localtime_r :: "int \<Rightarrow> 'd tm"
  mktime :: "'d tm \<Rightarrow> int"
  std_sort :: "(nat \<Rightarrow> nat \<Rightarrow> bool) \<Rightarrow> nat list \<Rightarrow> nat list"

text \<open>What \<^verbatim>\<open>std::sort\<close> promises of its result \<open>ys\<close> for the input \<open>xs\<close>.\<close>

definition std_sort_post :: "(nat \<Rightarrow> nat \<Rightarrow> bool) \<Rightarrow> nat list \<Rightarrow> nat list \<Rightarrow> bool" where
  "std_sort_post cmp xs ys = (mset ys = mset xs \<and> sorted_wrt (\<lambda>a b. \<not> cmp b a) ys)"

definition toLocalMidnight :: "'d platform \<Rightarrow> int \<Rightarrow> int" where
  "toLocalMidnight E t = mktime E ((localtime_r E t)\<lparr>tm_hour := 0, tm_min := 0, tm_sec := 0\<rparr>)"

record HM =
  h :: int
  m :: int

definition hour_min_local :: "'d platform \<Rightarrow> int \<Rightarrow> HM" where
  "hour_min_local E t = \<lparr>h = tm_hour (localtime_r E t), m = tm_min (localtime_r E t)\<rparr>"

section \<open>Shows and theaters\<close>

text \<open>
  \<^verbatim>\<open>struct ShowInfo\<close> and the data members of \<^verbatim>\<open>class Theater\<close> (the mutex apart: calls
  are modelled one after the other). The price is a \<^verbatim>\<open>double\<close> that no operation reads;
  its type is left open. \<^verbatim>\<open>int\<close> members are integers; where the 32-bit range matters a
  theorem says so.
\<close>

record 'p ShowInfo =
  movieName :: string
  start :: int
  price :: 'p
  freeTickets :: int
  taken :: "bool list"

record 'p Theater =
  theaterName :: string
  maxSeats :: int
  vShowInfo :: "'p ShowInfo list"

definition new_Theater :: "string \<Rightarrow> int \<Rightarrow> 'p Theater" where
  "new_Theater name seats = \<lparr>theaterName = name, maxSeats = seats, vShowInfo = []\<rparr>"

subsection \<open>Seat identifiers\<close>

definition makeSeatId :: "int \<Rightarrow> string" where
  "makeSeatId idx = ''A'' @ to_string (idx + 1)"

definition seatIndexFromId :: "'p Theater \<Rightarrow> string \<Rightarrow> int" where
  "seatIndexFromId th sid =
     (if length sid < 2 then - 1
      else if sid ! 0 \<noteq> CHR ''A'' \<and> sid ! 0 \<noteq> CHR ''a'' then - 1
      else let (n, endp) = strtol (tl (c_str sid))
           in if endp \<noteq> [] then - 1
              else if n \<le> 0 then - 1
              else if n > maxSeats th then - 1
              else n - 1)"

subsection \<open>Adding a show\<close>

text \<open>
  \<^verbatim>\<open>taken.assign(static_cast<size_t>(maxSeats), false)\<close> throws \<^verbatim>\<open>std::length_error\<close> for a
  negative capacity (the cast gives a size above \<^verbatim>\<open>max_size()\<close>); the show that
  \<^verbatim>\<open>emplace_back\<close> built before, with an empty seat map, stays in the vector.
\<close>

datatype exn = Length_error

definition addShowInfo ::
  "'p Theater \<Rightarrow> string \<Rightarrow> int \<Rightarrow> 'p \<Rightarrow> exn \<times> 'p Theater + 'p Theater" where
  "addShowInfo th name start_t pr =
     (let s = \<lparr>movieName = name, start = start_t, price = pr,
                freeTickets = maxSeats th, taken = []\<rparr>
      in if maxSeats th < 0
         then Inl (Length_error, th\<lparr>vShowInfo := vShowInfo th @ [s]\<rparr>)
         else Inr (th\<lparr>vShowInfo := vShowInfo th @
                [s\<lparr>taken := replicate (nat (maxSeats th)) False,
                   freeTickets := maxSeats th\<rparr>]\<rparr>))"

text \<open>The overload that takes a \<^verbatim>\<open>std::tm\<close> converts it with \<^verbatim>\<open>mktime\<close> first.\<close>

definition addShowInfo_tm ::
  "'d platform \<Rightarrow> 'p Theater \<Rightarrow> string \<Rightarrow> 'd tm \<Rightarrow> 'p \<Rightarrow> exn \<times> 'p Theater + 'p Theater" where
  "addShowInfo_tm E th name stime pr = addShowInfo th name (mktime E stime) pr"

subsection \<open>Free seats of a show\<close>

text \<open>The inner loop of \<^verbatim>\<open>availableSeatIds\<close>, from the counter \<open>i\<close> on.\<close>

function freeIdsFrom :: "int \<Rightarrow> int \<Rightarrow> bool list \<Rightarrow> string list" where
  "freeIdsFrom i n tk =
     (if i < n
      then (if i < int (length tk) \<and> \<not> tk ! nat i then [makeSeatId i] else [])
             @ freeIdsFrom (i + 1) n tk
      else [])"
  by pat_completeness auto
termination
  by (relation "measure (\<lambda>(i, n, tk). nat (n - i))") auto

declare freeIdsFrom.simps [simp del]

text \<open>
  The outer loop: the first show with this title and this start, then \<^verbatim>\<open>break\<close>. On that
  show \<^verbatim>\<open>ids.reserve(static_cast<size_t>(maxSeats))\<close> runs first; for a negative capacity the
  cast gives a size above \<^verbatim>\<open>max_size()\<close> and \<^verbatim>\<open>reserve\<close> throws \<^verbatim>\<open>std::length_error\<close>. Without
  a matching show nothing is reserved and the empty vector is returned.
\<close>

fun availableSeatIds_loop ::
  "int \<Rightarrow> string \<Rightarrow> int \<Rightarrow> 'p ShowInfo list \<Rightarrow> exn + string list" where
  "availableSeatIds_loop n moviename st [] = Inr []"
| "availableSeatIds_loop n moviename st (s # ss) =
     (if movieName s = moviename \<and> start s = st
      then (if n < 0 then Inl Length_error else Inr (freeIdsFrom 0 n (taken s)))
      else availableSeatIds_loop n moviename st ss)"

definition availableSeatIds :: "'p Theater \<Rightarrow> string \<Rightarrow> int \<Rightarrow> exn + string list" where
  "availableSeatIds th moviename st =
     availableSeatIds_loop (maxSeats th) moviename st (vShowInfo th)"

subsection \<open>Booking\<close>

text \<open>
  Lines 365 to 390 of \<^verbatim>\<open>bookSeats\<close>: the indices of the shows with this title on the day
  of \<open>dt\<close>, and the one chosen among them. \<open>None\<close> is an early \<^verbatim>\<open>return false\<close>
  (the code's \<^verbatim>\<open>chosenIdx\<close> keeps \<^verbatim>\<open>size_t(-1)\<close> when the loop finds nothing).
\<close>

definition candidates :: "'d platform \<Rightarrow> 'p Theater \<Rightarrow> string \<Rightarrow> int \<Rightarrow> nat list" where
  "candidates E th moviename dt =
     filter (\<lambda>i. movieName (vShowInfo th ! i) = moviename \<and>
                 toLocalMidnight E (start (vShowInfo th ! i)) = toLocalMidnight E dt)
            [0..<length (vShowInfo th)]"

text \<open>The comparison \<^verbatim>\<open>std::sort\<close> is called with: by the start of the shows at two indices.\<close>

definition by_start :: "'p Theater \<Rightarrow> nat \<Rightarrow> nat \<Rightarrow> bool" where
  "by_start th a b = (start (vShowInfo th ! a) < start (vShowInfo th ! b))"

definition chosenIdx :: "'d platform \<Rightarrow> 'p Theater \<Rightarrow> string \<Rightarrow> int \<Rightarrow> int \<Rightarrow> nat option" where
  "chosenIdx E th moviename dt show_no =
     (let cands = candidates E th moviename dt
      in if cands = [] then None
         else if show_no = 0
         then find (\<lambda>idx. h (hour_min_local E (start (vShowInfo th ! idx))) = h (hour_min_local E dt) \<and>
                          m (hour_min_local E (start (vShowInfo th ! idx))) = m (hour_min_local E dt))
                   cands
         else if show_no \<le> 0 then None
         else let srt = std_sort E (by_start th) cands
              in if nat show_no > length srt then None
                 else Some (srt ! (nat show_no - 1)))"

text \<open>The platform's \<^verbatim>\<open>std::sort\<close> keeps its promise on the call that \<open>chosenIdx\<close> makes.\<close>

definition sorts_candidates :: "'d platform \<Rightarrow> 'p Theater \<Rightarrow> string \<Rightarrow> int \<Rightarrow> bool" where
  "sorts_candidates E th title dt =
     std_sort_post (by_start th) (candidates E th title dt)
       (std_sort E (by_start th) (candidates E th title dt))"

text \<open>
  The loop over the requested identifiers: the decoded indices, or \<open>None\<close> at the first
  identifier that is invalid, out of range or of a seat already taken.
\<close>

fun seatIdxs :: "'p Theater \<Rightarrow> bool list \<Rightarrow> string list \<Rightarrow> int list option" where
  "seatIdxs th tk [] = Some []"
| "seatIdxs th tk (sid # ids) =
     (let idx = seatIndexFromId th sid
      in if idx < 0 then None
         else if idx \<ge> maxSeats th then None
         else if idx \<ge> int (length tk) then None
         else if tk ! nat idx then None
         else (case seatIdxs th tk ids of None \<Rightarrow> None | Some idxs \<Rightarrow> Some (idx # idxs)))"

text \<open>One identifier passes the four checks of that loop against the seat map \<open>tk\<close>.\<close>

definition seat_ok :: "'p Theater \<Rightarrow> bool list \<Rightarrow> string \<Rightarrow> bool" where
  "seat_ok th tk sid =
     (0 \<le> seatIndexFromId th sid \<and> seatIndexFromId th sid < maxSeats th \<and>
      seatIndexFromId th sid < int (length tk) \<and> \<not> tk ! nat (seatIndexFromId th sid))"

text \<open>\<^verbatim>\<open>for (int idx : idxs) show.taken[idx] = true\<close>.\<close>

definition markTaken :: "bool list \<Rightarrow> int list \<Rightarrow> bool list" where
  "markTaken tk idxs = foldl (\<lambda>t idx. t[nat idx := True]) tk idxs"

text \<open>
  Lines 414 and 415: the theater after the seats \<open>idxs\<close> of the show at index \<open>k\<close> are
  marked and its free count is lowered by the number of entries of \<open>idxs\<close>.
\<close>

definition booked :: "'p Theater \<Rightarrow> nat \<Rightarrow> int list \<Rightarrow> 'p Theater" where
  "booked th k idxs =
     th\<lparr>vShowInfo := (vShowInfo th)[k := (vShowInfo th ! k)
        \<lparr>taken := markTaken (taken (vShowInfo th ! k)) idxs,
         freeTickets := freeTickets (vShowInfo th ! k) - int (length idxs)\<rparr>]\<rparr>"

text \<open>
  The show at index \<open>i\<close> has this title, is on the day of \<open>dt\<close> and starts at the hour
  and minute of \<open>dt\<close>.
\<close>

definition time_match :: "'d platform \<Rightarrow> 'p Theater \<Rightarrow> string \<Rightarrow> int \<Rightarrow> nat \<Rightarrow> bool" where
  "time_match E th title dt i =
     (movieName (vShowInfo th ! i) = title \<and>
      toLocalMidnight E (start (vShowInfo th ! i)) = toLocalMidnight E dt \<and>
      h (hour_min_local E (start (vShowInfo th ! i))) = h (hour_min_local E dt) \<and>
      m (hour_min_local E (start (vShowInfo th ! i))) = m (hour_min_local E dt))"

definition bookSeats ::
  "'d platform \<Rightarrow> 'p Theater \<Rightarrow> string \<Rightarrow> int \<Rightarrow> string list \<Rightarrow> int \<Rightarrow> bool \<times> 'p Theater" where
  "bookSeats E th moviename dt seatIds show_no =
     (if seatIds = [] then (False, th)
      else case chosenIdx E th moviename dt show_no of
        None \<Rightarrow> (False, th)
      | Some k \<Rightarrow>
          if k \<ge> length (vShowInfo th) then (False, th)
          else let shw = vShowInfo th ! k
               in if movieName shw \<noteq> moviename then (False, th)
                  else if toLocalMidnight E (start shw) \<noteq> toLocalMidnight E dt then (False, th)
                  else if show_no = 0 \<and> h (hour_min_local E (start shw)) \<noteq> h (hour_min_local E dt)
                  then (False, th)
                  else if show_no = 0 \<and> m (hour_min_local E (start shw)) \<noteq> m (hour_min_local E dt)
                  then (False, th)
                  else (case seatIdxs th (taken shw) seatIds of
                          None \<Rightarrow> (False, th)
                        | Some idxs \<Rightarrow> (True, booked th k idxs)))"

section \<open>A platform to run the model on\<close>

text \<open>
  Universal time, with the day number as the date part of \<^verbatim>\<open>std::tm\<close>, and insertion sort.
\<close>

definition utc_localtime :: "int \<Rightarrow> int tm" where
  "utc_localtime t =
     \<lparr>tm_sec = t mod 60, tm_min = t div 60 mod 60, tm_hour = t div 3600 mod 24,
      tm_date = t div 86400\<rparr>"

definition utc_mktime :: "int tm \<Rightarrow> int" where
  "utc_mktime x = tm_date x * 86400 + tm_hour x * 3600 + tm_min x * 60 + tm_sec x"

fun insert_by :: "(nat \<Rightarrow> nat \<Rightarrow> bool) \<Rightarrow> nat \<Rightarrow> nat list \<Rightarrow> nat list" where
  "insert_by cmp x [] = [x]"
| "insert_by cmp x (y # ys) = (if cmp x y then x # y # ys else y # insert_by cmp x ys)"

definition insertion_sort :: "(nat \<Rightarrow> nat \<Rightarrow> bool) \<Rightarrow> nat list \<Rightarrow> nat list" where
  "insertion_sort cmp xs = foldr (insert_by cmp) xs []"

definition utc :: "int platform" where
  "utc = \<lparr>localtime_r = utc_localtime, mktime = utc_mktime, std_sort = insertion_sort\<rparr>"

section \<open>The derived free count and example theaters\<close>

text \<open>The number of \<open>False\<close> entries of a seat map: the seats that are free.\<close>

definition freeCount :: "bool list \<Rightarrow> nat" where
  "freeCount tk = length (filter (\<lambda>b. \<not> b) tk)"

text \<open>
  Every seat map of the theater has as many entries as the theater has seats (none for a
  negative capacity). \<open>new_Theater\<close>, \<open>addShowInfo\<close> and \<open>bookSeats\<close> keep it so.
\<close>

definition seats_sized :: "'p Theater \<Rightarrow> bool" where
  "seats_sized th = (\<forall>s\<in>set (vShowInfo th). length (taken s) = nat (maxSeats th))"

text \<open>
  A show of the title Inception with the start \<open>t\<close>, the seat map \<open>tk\<close> and the free count
  \<open>n\<close>. Starts are seconds of day 0 in universal time: 36000 is 10:00, 50400 is 14:00,
  64800 is 18:00 and 64830 is 18:00:30.
\<close>

definition inception :: "int \<Rightarrow> bool list \<Rightarrow> int \<Rightarrow> unit ShowInfo" where
  "inception t tk n = \<lparr>movieName = ''Inception'', start = t, price = (), freeTickets = n, taken = tk\<rparr>"

text \<open>The theater of \<^verbatim>\<open>runSeatTests\<close>: six seats, one show at 18:00.\<close>

definition apsara :: "unit Theater" where
  "apsara = \<lparr>theaterName = ''Apsara'', maxSeats = 6,
     vShowInfo = [inception 64800 [False, False, False, False, False, False] 6]\<rparr>"

text \<open>Three shows of one title on one day, added in the order 18:00, 10:00, 14:00.\<close>

definition three_shows :: "unit Theater" where
  "three_shows = \<lparr>theaterName = ''Apsara'', maxSeats = 2,
     vShowInfo = [inception 64800 [False, False] 2, inception 36000 [False, False] 2,
                  inception 50400 [False, False] 2]\<rparr>"


text \<open>
  A theater of two seats: with one show at 18:00; after seat A1 of that show was
  booked; and after a second show with the same title and start was added.
\<close>

definition stage1 :: "unit Theater" where
  "stage1 = \<lparr>theaterName = ''Apsara'', maxSeats = 2,
     vShowInfo = [inception 64800 [False, False] 2]\<rparr>"

definition stage2 :: "unit Theater" where
  "stage2 = \<lparr>theaterName = ''Apsara'', maxSeats = 2,
     vShowInfo = [inception 64800 [True, False] 1]\<rparr>"


text \<open>
  A theater built with the capacity \<open>- 1\<close>, after \<open>addShowInfo\<close> threw: the show it had
  appended stays, with an empty seat map.
\<close>

definition minus_one :: "unit Theater" where
  "minus_one = \<lparr>theaterName = ''Apsara'', maxSeats = - 1,
     vShowInfo = [inception 64800 [] (- 1)]\<rparr>"

section \<open>Decimal numerals and \<^verbatim>\<open>strtol\<close>\<close>

lemma digit_char_cases: "d < 10 \<Longrightarrow> d \<in> {0, 1, 2, 3, 4, 5, 6, 7, 8, 9::nat}"
  by auto

lemma isdigit_digit_char: "d < 10 \<Longrightarrow> isdigit (''0123456789'' ! d)"
  using digit_char_cases [of d] by (auto simp: isdigit_def)

lemma digit_val_digit_char: "d < 10 \<Longrightarrow> digit_val (''0123456789'' ! d) = int d"
  using digit_char_cases [of d] by (auto simp: digit_val_def)

lemma digits_nonempty: "digits n \<noteq> []"
  by (subst digits.simps) simp

lemma digits_isdigit: "c \<in> set (digits n) \<Longrightarrow> isdigit c"
proof (induction n arbitrary: c rule: digits.induct)
  case (1 n)
  show ?case
  proof (cases "n < 10")
    case True
    with "1.prems" show ?thesis
      by (subst (asm) digits.simps) (simp add: isdigit_digit_char)
  next
    case False
    with "1.prems" have "c \<in> set (digits (n div 10)) \<or> c = ''0123456789'' ! (n mod 10)"
      by (subst (asm) digits.simps) auto
    with False "1.IH" show ?thesis
      by (auto simp: isdigit_digit_char)
  qed
qed

lemma digits_value_aux: "foldl (\<lambda>a c. 10 * a + digit_val c) 0 (digits n) = int n"
proof (induction n rule: digits.induct)
  case (1 n)
  show ?case
  proof (cases "n < 10")
    case True
    then show ?thesis
      by (subst digits.simps) (simp add: digit_val_digit_char)
  next
    case False
    with "1.IH" have "foldl (\<lambda>a c. 10 * a + digit_val c) 0 (digits n)
        = 10 * int (n div 10) + int (n mod 10)"
      by (subst digits.simps) (simp add: digit_val_digit_char)
    then show ?thesis by (simp add: of_nat_div of_nat_mod)
  qed
qed

lemma digits_value: "decimal_value (digits n) = int n"
  by (simp add: decimal_value_def digits_value_aux)

lemma isdigit_not_other:
  "isdigit c \<Longrightarrow> \<not> isspace c \<and> c \<noteq> CHR ''-'' \<and> c \<noteq> CHR ''+'' \<and> c \<noteq> CHR 0x00"
  by (auto simp: isdigit_def isspace_def)

lemma takeWhile_digits: "takeWhile isdigit (digits n) = digits n"
  by (simp add: digits_isdigit)

lemma dropWhile_digits: "dropWhile isdigit (digits n) = []"
  by (simp add: digits_isdigit)

lemma digits_Cons: "\<exists>c r. digits n = c # r \<and> isdigit c"
  using digits_nonempty [of n] digits_isdigit [of _ n] by (cases "digits n") auto

lemma strtol_digits: "strtol (digits n) = (min LONG_MAX (int n), [])"
proof -
  obtain c r where cr: "digits n = c # r" "isdigit c"
    using digits_Cons by blast
  have sp: "dropWhile isspace (digits n) = digits n"
    using cr isdigit_not_other by simp
  have neg: "(case digits n of [] \<Rightarrow> False | c # r \<Rightarrow> c = CHR ''-'') = False"
    using cr isdigit_not_other [of c] by simp
  have s2: "(case digits n of [] \<Rightarrow> digits n
       | c # r \<Rightarrow> if c = CHR ''-'' then r else if c = CHR ''+'' then r else digits n) = digits n"
    using cr isdigit_not_other [of c] by simp
  show ?thesis
    unfolding strtol_def Let_def sp neg s2 takeWhile_digits dropWhile_digits digits_value
    by (simp add: digits_nonempty)
qed

lemma strtol_minus_digits: "strtol (CHR ''-'' # digits n) = (max LONG_MIN (- int n), [])"
proof -
  have sp: "dropWhile isspace (CHR ''-'' # digits n) = CHR ''-'' # digits n"
    by (simp add: isspace_def)
  show ?thesis
    unfolding strtol_def Let_def sp
    by (simp add: takeWhile_digits dropWhile_digits digits_value digits_nonempty
        del: takeWhile_eq_all_conv dropWhile_eq_Nil_conv)
qed

lemma strtol_to_string:
  "strtol (to_string n) = (if n < 0 then max LONG_MIN n else min LONG_MAX n, [])"
  by (simp add: to_string_def strtol_digits strtol_minus_digits)

lemma c_str_digits: "c_str (digits n) = digits n"
  unfolding c_str_def using isdigit_not_other digits_isdigit [of _ n]
  by simp

lemma c_str_to_string: "c_str (to_string n) = to_string n"
  using c_str_digits by (simp add: to_string_def c_str_def)

lemma to_string_nonempty: "to_string n \<noteq> []"
  by (simp add: to_string_def digits_nonempty)

lemma seatIndexFromId_letter_to_string:
  assumes "c = CHR ''A'' \<or> c = CHR ''a''"
  shows "seatIndexFromId th (c # to_string n) =
     (if n \<le> 0 then - 1 else if min LONG_MAX n > maxSeats th then - 1 else min LONG_MAX n - 1)"
proof -
  have len: "\<not> length (c # to_string n) < 2"
    using to_string_nonempty [of n] by (cases "to_string n") auto
  have cs: "tl (c_str (c # to_string n)) = to_string n"
    using assms c_str_to_string [of n] by (auto simp: c_str_def)
  show ?thesis
    unfolding seatIndexFromId_def cs strtol_to_string using assms len
    by (auto simp: LONG_MIN_def LONG_MAX_def)
qed

section \<open>The steps of a booking\<close>

lemma seatIdxs_Some:
  "seatIdxs th tk ids = Some idxs \<Longrightarrow>
     idxs = map (seatIndexFromId th) ids \<and> (\<forall>sid\<in>set ids. seat_ok th tk sid)"
  by (induction ids arbitrary: idxs)
     (auto simp: Let_def seat_ok_def split: if_splits option.splits)

lemma seatIdxs_all_ok:
  "\<forall>sid\<in>set ids. seat_ok th tk sid \<Longrightarrow> seatIdxs th tk ids = Some (map (seatIndexFromId th) ids)"
  by (induction ids) (auto simp: Let_def seat_ok_def)

lemma seatIdxs_None_iff:
  "seatIdxs th tk ids = None \<longleftrightarrow> (\<exists>sid\<in>set ids. \<not> seat_ok th tk sid)"
  using seatIdxs_Some [of th tk ids] seatIdxs_all_ok [of ids th tk]
  by (cases "seatIdxs th tk ids") auto

lemma markTaken_length: "length (markTaken tk idxs) = length tk"
  unfolding markTaken_def by (induction idxs arbitrary: tk) auto

lemma markTaken_nth:
  "j < length tk \<Longrightarrow> markTaken tk idxs ! j = (tk ! j \<or> j \<in> nat ` set idxs)"
  unfolding markTaken_def
proof (induction idxs arbitrary: tk)
  case Nil
  then show ?case by simp
next
  case (Cons i idxs)
  have "foldl (\<lambda>t idx. t[nat idx := True]) (tk[nat i := True]) idxs ! j =
      (tk[nat i := True] ! j \<or> j \<in> nat ` set idxs)"
    using Cons.IH [of "tk[nat i := True]"] Cons.prems by simp
  then show ?case
    using Cons.prems by (cases "j = nat i") (auto simp: nth_list_update)
qed

lemma bookSeats_False: "bookSeats E th title dt seatIds show_no = (False, th') \<Longrightarrow> th' = th"
  by (auto simp: bookSeats_def Let_def split: if_splits option.splits)

lemma bookSeats_True:
  assumes "bookSeats E th title dt seatIds show_no = (True, th')"
  shows "\<exists>k. chosenIdx E th title dt show_no = Some k \<and> k < length (vShowInfo th) \<and>
            seatIds \<noteq> [] \<and>
            movieName (vShowInfo th ! k) = title \<and>
            toLocalMidnight E (start (vShowInfo th ! k)) = toLocalMidnight E dt \<and>
            (\<forall>sid\<in>set seatIds. seat_ok th (taken (vShowInfo th ! k)) sid) \<and>
            th' = booked th k (map (seatIndexFromId th) seatIds)"
  using assms
  by (auto simp: bookSeats_def Let_def split: if_splits option.splits dest!: seatIdxs_Some)

lemma candidates_iff:
  "k \<in> set (candidates E th title dt) \<longleftrightarrow>
     k < length (vShowInfo th) \<and> movieName (vShowInfo th ! k) = title \<and>
     toLocalMidnight E (start (vShowInfo th ! k)) = toLocalMidnight E dt"
  by (auto simp: candidates_def)

lemma bookSeats_resolved:
  assumes "seatIds \<noteq> []" "chosenIdx E th title dt show_no = Some k"
    "k \<in> set (candidates E th title dt)"
    "show_no = 0 \<longrightarrow> h (hour_min_local E (start (vShowInfo th ! k))) = h (hour_min_local E dt) \<and>
                      m (hour_min_local E (start (vShowInfo th ! k))) = m (hour_min_local E dt)"
  shows "bookSeats E th title dt seatIds show_no =
     (if \<forall>sid\<in>set seatIds. seat_ok th (taken (vShowInfo th ! k)) sid
      then (True, booked th k (map (seatIndexFromId th) seatIds))
      else (False, th))"
proof (cases "\<forall>sid\<in>set seatIds. seat_ok th (taken (vShowInfo th ! k)) sid")
  case True
  then have "seatIdxs th (taken (vShowInfo th ! k)) seatIds = Some (map (seatIndexFromId th) seatIds)"
    by (rule seatIdxs_all_ok)
  with True assms show ?thesis
    by (simp add: bookSeats_def Let_def candidates_iff)
next
  case False
  then have "seatIdxs th (taken (vShowInfo th ! k)) seatIds = None"
    by (simp add: seatIdxs_None_iff)
  with False assms show ?thesis
    by (simp add: bookSeats_def Let_def candidates_iff)
qed

lemma chosenIdx_time_match:
  "chosenIdx E th title dt 0 =
     find (\<lambda>i. movieName (vShowInfo th ! i) = title \<and>
               toLocalMidnight E (start (vShowInfo th ! i)) = toLocalMidnight E dt \<and>
               h (hour_min_local E (start (vShowInfo th ! i))) = h (hour_min_local E dt) \<and>
               m (hour_min_local E (start (vShowInfo th ! i))) = m (hour_min_local E dt))
          [0..<length (vShowInfo th)]"
proof -
  have ff: "find P (filter Q xs) = find (\<lambda>x. Q x \<and> P x) xs" for P Q and xs :: "nat list"
    by (induction xs) auto
  have "chosenIdx E th title dt 0 =
      find (\<lambda>idx. h (hour_min_local E (start (vShowInfo th ! idx))) = h (hour_min_local E dt) \<and>
                   m (hour_min_local E (start (vShowInfo th ! idx))) = m (hour_min_local E dt))
           (candidates E th title dt)"
    by (simp add: chosenIdx_def Let_def)
  then show ?thesis
    unfolding candidates_def ff by (simp add: conj_commute conj_left_commute)
qed

section \<open>Runs of the model on the example theaters\<close>

lemma apsara_books_A1:
  "bookSeats utc apsara ''Inception'' 64800 [''A1''] 0 =
     (True, apsara\<lparr>vShowInfo := [inception 64800 [True, False, False, False, False, False] 5]\<rparr>)"
  by code_simp

lemma apsara_books_A2_A3:
  "bookSeats utc apsara ''Inception'' 64800 [''A2'', ''A3''] 0 =
     (True, apsara\<lparr>vShowInfo := [inception 64800 [False, True, True, False, False, False] 4]\<rparr>)"
  by code_simp

lemma apsara_rejects_A2_A9:
  "bookSeats utc apsara ''Inception'' 64800 [''A2'', ''A9''] 0 = (False, apsara)"
  by code_simp

lemma apsara_chosen: "chosenIdx utc apsara ''Inception'' 64800 0 = Some 0"
  by code_simp

lemma apsara_A9_not_ok: "\<not> seat_ok apsara (taken (vShowInfo apsara ! 0)) ''A9''"
  by code_simp

section \<open>The booking contract\<close>

text \<open>
  Claim C8. A booking request with an empty list of seat identifiers returns false and
  leaves the theater as it was, for every theater, title, instant and ordinal, whether
  or not a show with free seats matches.
\<close>

theorem bookSeats_empty_request: "bookSeats E th title dt [] show_no = (False, th)"
  by (simp add: bookSeats_def)

theorem bookSeats_empty_request_witness:
  "bookSeats utc apsara ''Inception'' 64800 [] 0 = (False, apsara) \<and>
   fst (bookSeats utc apsara ''Inception'' 64800 [''A1''] 0)"
  using bookSeats_empty_request [of utc apsara "''Inception''" 64800 0]
  by (simp add: apsara_books_A1)

text \<open>
  A booking is all or nothing with respect to the decoder. When \<open>bookSeats\<close> returns
  true, one show was resolved, the decoder gave for every requested identifier a free
  seat of it, its seat map is changed at exactly the decoded seats, its free count is
  lowered, and nothing else in the theater is changed. When it returns false the
  theater is unchanged, and so it is whenever the decoder rejects an identifier or
  decodes it to a seat that is out of range or taken in the resolved show.
\<close>

lemma bookSeats_all_or_nothing:
  assumes "bookSeats E th title dt seatIds show_no = (ok, th')"
  shows "(if ok
          then \<exists>k tk. chosenIdx E th title dt show_no = Some k \<and> k < length (vShowInfo th) \<and>
                 (\<forall>sid\<in>set seatIds. seat_ok th (taken (vShowInfo th ! k)) sid) \<and>
                 length tk = length (taken (vShowInfo th ! k)) \<and>
                 (\<forall>j<length tk. tk ! j =
                    (taken (vShowInfo th ! k) ! j \<or> int j \<in> seatIndexFromId th ` set seatIds)) \<and>
                 th' = th\<lparr>vShowInfo := (vShowInfo th)[k := (vShowInfo th ! k)
                   \<lparr>taken := tk,
                    freeTickets := freeTickets (vShowInfo th ! k) - int (length seatIds)\<rparr>]\<rparr>
          else th' = th) \<and>
         ((\<exists>sid\<in>set seatIds. \<forall>k. chosenIdx E th title dt show_no = Some k \<longrightarrow>
              \<not> seat_ok th (taken (vShowInfo th ! k)) sid) \<longrightarrow> \<not> ok \<and> th' = th)"
proof (cases ok)
  case False
  with assms have "th' = th" by (simp add: bookSeats_False)
  with False show ?thesis by simp
next
  case True
  with assms have b: "bookSeats E th title dt seatIds show_no = (True, th')" by simp
  obtain k where k: "chosenIdx E th title dt show_no = Some k"
      "k < length (vShowInfo th)"
      "\<forall>sid\<in>set seatIds. seat_ok th (taken (vShowInfo th ! k)) sid"
      "th' = th\<lparr>vShowInfo := (vShowInfo th)[k := (vShowInfo th ! k)
                \<lparr>taken := markTaken (taken (vShowInfo th ! k)) (map (seatIndexFromId th) seatIds),
                 freeTickets := freeTickets (vShowInfo th ! k) - int (length seatIds)\<rparr>]\<rparr>"
    using bookSeats_True [OF b] unfolding booked_def by auto
  let ?tk = "markTaken (taken (vShowInfo th ! k)) (map (seatIndexFromId th) seatIds)"
  have len: "length ?tk = length (taken (vShowInfo th ! k))"
    by (rule markTaken_length)
  have nonneg: "\<forall>i\<in>seatIndexFromId th ` set seatIds. 0 \<le> i"
    using k(3) by (auto simp: seat_ok_def)
  have mem: "j \<in> nat ` seatIndexFromId th ` set seatIds \<longleftrightarrow> int j \<in> seatIndexFromId th ` set seatIds"
    for j
  proof
    assume "j \<in> nat ` seatIndexFromId th ` set seatIds"
    then obtain i where "i \<in> seatIndexFromId th ` set seatIds" "j = nat i" by blast
    with nonneg show "int j \<in> seatIndexFromId th ` set seatIds" by auto
  next
    assume "int j \<in> seatIndexFromId th ` set seatIds"
    then have "nat (int j) \<in> nat ` seatIndexFromId th ` set seatIds" by (rule imageI)
    then show "j \<in> nat ` seatIndexFromId th ` set seatIds" by simp
  qed
  have nth: "\<forall>j<length ?tk. ?tk ! j =
      (taken (vShowInfo th ! k) ! j \<or> int j \<in> seatIndexFromId th ` set seatIds)"
    using markTaken_nth [of _ "taken (vShowInfo th ! k)" "map (seatIndexFromId th) seatIds"]
    by (simp add: len mem)
  have first: "\<exists>k tk. chosenIdx E th title dt show_no = Some k \<and> k < length (vShowInfo th) \<and>
                 (\<forall>sid\<in>set seatIds. seat_ok th (taken (vShowInfo th ! k)) sid) \<and>
                 length tk = length (taken (vShowInfo th ! k)) \<and>
                 (\<forall>j<length tk. tk ! j =
                    (taken (vShowInfo th ! k) ! j \<or> int j \<in> seatIndexFromId th ` set seatIds)) \<and>
                 th' = th\<lparr>vShowInfo := (vShowInfo th)[k := (vShowInfo th ! k)
                   \<lparr>taken := tk,
                    freeTickets := freeTickets (vShowInfo th ! k) - int (length seatIds)\<rparr>]\<rparr>"
    using k(1,2,3,4) len nth by blast
  have second: "\<not> (\<exists>sid\<in>set seatIds. \<forall>k. chosenIdx E th title dt show_no = Some k \<longrightarrow>
              \<not> seat_ok th (taken (vShowInfo th ! k)) sid)"
    using k(1,3) by auto
  from True first second show ?thesis by simp
qed

lemma bookSeats_all_or_nothing_run:
  "(\<exists>k tk. chosenIdx utc apsara ''Inception'' 64800 0 = Some k \<and>
      k < length (vShowInfo apsara) \<and>
      (\<forall>sid\<in>set [''A2'', ''A3'']. seat_ok apsara (taken (vShowInfo apsara ! k)) sid) \<and>
      length tk = length (taken (vShowInfo apsara ! k)) \<and>
      (\<forall>j<length tk. tk ! j =
         (taken (vShowInfo apsara ! k) ! j \<or> int j \<in> seatIndexFromId apsara ` set [''A2'', ''A3''])) \<and>
      apsara\<lparr>vShowInfo := [inception 64800 [False, True, True, False, False, False] 4]\<rparr> =
        apsara\<lparr>vShowInfo := (vShowInfo apsara)[k := (vShowInfo apsara ! k)
          \<lparr>taken := tk,
           freeTickets := freeTickets (vShowInfo apsara ! k) - int (length [''A2'', ''A3''])\<rparr>]\<rparr>) \<and>
   (\<exists>sid\<in>set [''A2'', ''A9'']. \<forall>k. chosenIdx utc apsara ''Inception'' 64800 0 = Some k \<longrightarrow>
      \<not> seat_ok apsara (taken (vShowInfo apsara ! k)) sid) \<and>
   bookSeats utc apsara ''Inception'' 64800 [''A2'', ''A9''] 0 = (False, apsara)"
proof -
  have bad: "\<exists>sid\<in>set [''A2'', ''A9'']. \<forall>k. chosenIdx utc apsara ''Inception'' 64800 0 = Some k \<longrightarrow>
      \<not> seat_ok apsara (taken (vShowInfo apsara ! k)) sid"
    using apsara_A9_not_ok by (simp add: apsara_chosen)
  from bookSeats_all_or_nothing [OF apsara_books_A2_A3]
       bookSeats_all_or_nothing [OF apsara_rejects_A2_A9] bad apsara_rejects_A2_A9
  show ?thesis by simp
qed

text \<open>
  Claim C1 says that a request with a malformed identifier books nothing. The code
  breaks it where the decoder takes a malformed identifier for a seat: in a theater of
  two seats with one show and both seats free, the request \<^verbatim>\<open>"A 1"\<close>, whose number is
  preceded by a blank, returns true and takes seat A1, and the request of the valid A2
  with \<^verbatim>\<open>"A 1"\<close> returns true and takes both seats, where the claim has the call return
  false and leave A2 free.
\<close>

theorem malformed_id_is_booked:
  "\<not> list_all isdigit (tl ''A 1'') \<and>
   bookSeats utc stage1 ''Inception'' 64800 [''A 1''] 0 = (True, stage2) \<and>
   bookSeats utc stage1 ''Inception'' 64800 [''A2'', ''A 1''] 0 =
     (True, stage1\<lparr>vShowInfo := [inception 64800 [True, True] 0]\<rparr>)"
  by code_simp

section \<open>Resolving the show\<close>


lemma find_upt_Some: "find P [0..<n] = Some k \<longleftrightarrow> k < n \<and> P k \<and> (\<forall>j<k. \<not> P j)"
  by (auto simp: find_Some_iff)

lemma chosenIdx_time_match_find:
  "chosenIdx E th title dt 0 = find (time_match E th title dt) [0..<length (vShowInfo th)]"
  using chosenIdx_time_match [of E th title dt] unfolding time_match_def .









lemma map_nth_filter_upt:
  "map ((!) xs) (filter (\<lambda>i. P (xs ! i)) [0..<length xs]) = filter P xs"
proof -
  have "filter P (map ((!) xs) [0..<length xs]) = map ((!) xs) (filter (P \<circ> (!) xs) [0..<length xs])"
    by (rule filter_map)
  then show ?thesis by (simp add: map_nth comp_def)
qed

lemma candidates_shows:
  "map ((!) (vShowInfo th)) (candidates E th title dt) =
     filter (\<lambda>s. movieName s = title \<and> toLocalMidnight E (start s) = toLocalMidnight E dt)
       (vShowInfo th)"
  unfolding candidates_def
  by (rule map_nth_filter_upt
      [of "vShowInfo th" "\<lambda>s. movieName s = title \<and> toLocalMidnight E (start s) = toLocalMidnight E dt"])

lemma chosenIdx_negative: "show_no < 0 \<Longrightarrow> chosenIdx E th title dt show_no = None"
  by (simp add: chosenIdx_def Let_def)

lemma bookSeats_unresolved:
  "chosenIdx E th title dt show_no = None \<Longrightarrow> bookSeats E th title dt seatIds show_no = (False, th)"
  by (simp add: bookSeats_def)

lemma std_sort_post_starts:
  assumes "std_sort_post (\<lambda>a b. f a < f b) xs ys"
  shows "length ys = length xs" "set ys = set xs" "map f ys = sort (map f xs)"
proof -
  from assms have ms: "mset ys = mset xs" and sw: "sorted_wrt (\<lambda>a b. \<not> f b < f a) ys"
    by (simp_all add: std_sort_post_def)
  from ms show "length ys = length xs" by (rule mset_eq_length)
  from ms show "set ys = set xs" by (rule mset_eq_setD)
  from sw have "sorted_wrt (\<lambda>a b. f a \<le> f b) ys"
    by (simp add: not_less)
  then have s: "sorted (map f ys)" by (simp add: sorted_map)
  from ms have e: "mset (map f ys) = mset (map f xs)" by simp
  from properties_for_sort [OF e s] show "map f ys = sort (map f xs)" by simp
qed

lemma chosenIdx_ordinal:
  assumes post: "sorts_candidates E th title dt"
    and pos: "0 < show_no"
  shows "int (length (candidates E th title dt)) < show_no \<Longrightarrow> chosenIdx E th title dt show_no = None"
    and "show_no \<le> int (length (candidates E th title dt)) \<Longrightarrow>
      \<exists>k. chosenIdx E th title dt show_no = Some k \<and> k \<in> set (candidates E th title dt) \<and>
          start (vShowInfo th ! k) =
            sort (map (\<lambda>i. start (vShowInfo th ! i)) (candidates E th title dt)) ! (nat show_no - 1)"
proof -
  let ?cands = "candidates E th title dt"
  let ?srt = "std_sort E (by_start th) ?cands"
  have by_start: "by_start th = (\<lambda>a b. start (vShowInfo th ! a) < start (vShowInfo th ! b))"
    by (simp add: by_start_def fun_eq_iff)
  from post have "std_sort_post (\<lambda>a b. start (vShowInfo th ! a) < start (vShowInfo th ! b)) ?cands ?srt"
    by (simp only: sorts_candidates_def by_start)
  note p = std_sort_post_starts [OF this]
  show "chosenIdx E th title dt show_no = None" if "int (length ?cands) < show_no"
    using that pos unfolding chosenIdx_def Let_def p(1) by auto
  show "\<exists>k. chosenIdx E th title dt show_no = Some k \<and> k \<in> set ?cands \<and>
          start (vShowInfo th ! k) = sort (map (\<lambda>i. start (vShowInfo th ! i)) ?cands) ! (nat show_no - 1)"
    if le: "show_no \<le> int (length ?cands)"
  proof -
    from le pos have lt: "nat show_no - 1 < length ?srt" and ne: "?cands \<noteq> []"
      by (auto simp: p(1))
    from le pos ne have ch: "chosenIdx E th title dt show_no = Some (?srt ! (nat show_no - 1))"
      unfolding chosenIdx_def Let_def p(1) by auto
    from lt have "?srt ! (nat show_no - 1) \<in> set ?srt" by (rule nth_mem)
    then have mem: "?srt ! (nat show_no - 1) \<in> set ?cands" by (simp only: p(2))
    from lt have "start (vShowInfo th ! (?srt ! (nat show_no - 1))) =
        map (\<lambda>i. start (vShowInfo th ! i)) ?srt ! (nat show_no - 1)"
      by simp
    then have "start (vShowInfo th ! (?srt ! (nat show_no - 1))) =
        sort (map (\<lambda>i. start (vShowInfo th ! i)) ?cands) ! (nat show_no - 1)"
      by (simp only: p(3))
    with ch mem show ?thesis by blast
  qed
qed

lemma sort_three:
  fixes a b c :: int
  assumes "mset xs = {#a, b, c#}" "a < b" "b < c"
  shows "sort xs = [a, b, c]"
  using assms by (intro properties_for_sort) auto

lemma middle_of_three:
  assumes post: "sorts_candidates E th title dt"
    and three: "mset (filter (\<lambda>s. movieName s = title \<and>
        toLocalMidnight E (start s) = toLocalMidnight E dt) (vShowInfo th)) = {#s1, s2, s3#}"
    and lt: "start s1 < start s2" "start s2 < start s3"
  shows "\<exists>k. chosenIdx E th title dt 2 = Some k \<and> k \<in> set (candidates E th title dt) \<and>
     vShowInfo th ! k = s2"
proof -
  let ?cands = "candidates E th title dt"
  have ms: "mset (map ((!) (vShowInfo th)) ?cands) = {#s1, s2, s3#}"
    using three by (simp only: candidates_shows)
  then have "size (mset (map ((!) (vShowInfo th)) ?cands)) = 3" by simp
  then have len: "length ?cands = 3" by simp
  have "mset (map start (map ((!) (vShowInfo th)) ?cands)) = image_mset start {#s1, s2, s3#}"
    using ms by (simp only: mset_map)
  then have "mset (map start (map ((!) (vShowInfo th)) ?cands)) = {#start s1, start s2, start s3#}"
    by simp
  then have "mset (map (\<lambda>i. start (vShowInfo th ! i)) ?cands) = {#start s1, start s2, start s3#}"
    by (simp add: comp_def)
  then have srt: "sort (map (\<lambda>i. start (vShowInfo th ! i)) ?cands) = [start s1, start s2, start s3]"
    using lt by (rule sort_three)
  from chosenIdx_ordinal(2) [OF post, of 2] len
  obtain k where k: "chosenIdx E th title dt 2 = Some k" "k \<in> set ?cands"
      "start (vShowInfo th ! k) = sort (map (\<lambda>i. start (vShowInfo th ! i)) ?cands) ! (nat 2 - 1)"
    by auto
  from k(3) srt have st: "start (vShowInfo th ! k) = start s2" by simp
  from k(2) have "vShowInfo th ! k \<in> set (map ((!) (vShowInfo th)) ?cands)" by simp
  then have "vShowInfo th ! k \<in># {#s1, s2, s3#}" by (simp only: ms [symmetric] set_mset_mset)
  with st lt have "vShowInfo th ! k = s2" by auto
  with k(1,2) show ?thesis by blast
qed

lemma three_shows_sorted: "sorts_candidates utc three_shows ''Inception'' 40000"
  by code_simp

lemma three_shows_candidates: "candidates utc three_shows ''Inception'' 40000 = [0, 1, 2]"
  by code_simp

lemma three_shows_filter:
  "mset (filter (\<lambda>s. movieName s = ''Inception'' \<and>
       toLocalMidnight utc (start s) = toLocalMidnight utc 40000) (vShowInfo three_shows)) =
   {#inception 36000 [False, False] 2, inception 50400 [False, False] 2,
     inception 64800 [False, False] 2#}"
  by code_simp

lemma inception_start: "start (inception t tk n) = t"
  by (simp add: inception_def)

text \<open>
  Claim C3. With a positive ordinal the show is resolved by position: on a platform
  whose \<^verbatim>\<open>std::sort\<close> sorts the candidates (the shows with the title on the day of the
  reference instant), the chosen show is a candidate whose start is the ordinal-th
  smallest start among the candidates, counted from 1, and the booking is made on it. A
  negative ordinal and an ordinal above the number of candidates fail. Hence, when the
  candidates are three shows with distinct starts, in whatever order they were added,
  ordinal 2 resolves to the one whose start lies between the other two.
\<close>

theorem bookSeats_ordinal:
  assumes "sorts_candidates E th title dt"
  shows "(show_no < 0 \<longrightarrow>
            chosenIdx E th title dt show_no = None \<and>
            bookSeats E th title dt seatIds show_no = (False, th)) \<and>
         (int (length (candidates E th title dt)) < show_no \<longrightarrow>
            chosenIdx E th title dt show_no = None \<and>
            bookSeats E th title dt seatIds show_no = (False, th)) \<and>
         (0 < show_no \<and> show_no \<le> int (length (candidates E th title dt)) \<longrightarrow>
            (\<exists>k. chosenIdx E th title dt show_no = Some k \<and>
                 k \<in> set (candidates E th title dt) \<and>
                 start (vShowInfo th ! k) =
                   sort (map (\<lambda>i. start (vShowInfo th ! i)) (candidates E th title dt))
                     ! (nat show_no - 1) \<and>
                 bookSeats E th title dt seatIds show_no =
                   (if seatIds \<noteq> [] \<and> (\<forall>sid\<in>set seatIds. seat_ok th (taken (vShowInfo th ! k)) sid)
                    then (True, booked th k (map (seatIndexFromId th) seatIds))
                    else (False, th)))) \<and>
         (mset (filter (\<lambda>s. movieName s = title \<and>
               toLocalMidnight E (start s) = toLocalMidnight E dt) (vShowInfo th)) = {#s1, s2, s3#} \<and>
          start s1 < start s2 \<and> start s2 < start s3 \<longrightarrow>
            (\<exists>k. chosenIdx E th title dt 2 = Some k \<and> k < length (vShowInfo th) \<and>
                 vShowInfo th ! k = s2))"
proof -
  have neg: "chosenIdx E th title dt show_no = None \<and>
      bookSeats E th title dt seatIds show_no = (False, th)" if "show_no < 0"
    using that by (simp add: chosenIdx_negative bookSeats_unresolved)
  have big: "chosenIdx E th title dt show_no = None \<and>
      bookSeats E th title dt seatIds show_no = (False, th)"
    if "int (length (candidates E th title dt)) < show_no"
  proof -
    from that have "0 < show_no" by simp
    from chosenIdx_ordinal(1) [OF assms this that] show ?thesis
      by (simp add: bookSeats_unresolved)
  qed
  have mid: "\<exists>k. chosenIdx E th title dt show_no = Some k \<and>
                 k \<in> set (candidates E th title dt) \<and>
                 start (vShowInfo th ! k) =
                   sort (map (\<lambda>i. start (vShowInfo th ! i)) (candidates E th title dt))
                     ! (nat show_no - 1) \<and>
                 bookSeats E th title dt seatIds show_no =
                   (if seatIds \<noteq> [] \<and> (\<forall>sid\<in>set seatIds. seat_ok th (taken (vShowInfo th ! k)) sid)
                    then (True, booked th k (map (seatIndexFromId th) seatIds))
                    else (False, th))"
    if r: "0 < show_no \<and> show_no \<le> int (length (candidates E th title dt))"
  proof -
    from r have pos: "0 < show_no" and le: "show_no \<le> int (length (candidates E th title dt))"
      by simp_all
    from chosenIdx_ordinal(2) [OF assms pos le]
    obtain k where k: "chosenIdx E th title dt show_no = Some k"
        "k \<in> set (candidates E th title dt)"
        "start (vShowInfo th ! k) =
           sort (map (\<lambda>i. start (vShowInfo th ! i)) (candidates E th title dt)) ! (nat show_no - 1)"
      by blast
    have "bookSeats E th title dt seatIds show_no =
        (if seatIds \<noteq> [] \<and> (\<forall>sid\<in>set seatIds. seat_ok th (taken (vShowInfo th ! k)) sid)
         then (True, booked th k (map (seatIndexFromId th) seatIds))
         else (False, th))"
    proof (cases "seatIds = []")
      case True
      then show ?thesis by (simp add: bookSeats_def)
    next
      case False
      from pos have "show_no = 0 \<longrightarrow>
          h (hour_min_local E (start (vShowInfo th ! k))) = h (hour_min_local E dt) \<and>
          m (hour_min_local E (start (vShowInfo th ! k))) = m (hour_min_local E dt)"
        by simp
      from bookSeats_resolved [OF False k(1) k(2) this] False show ?thesis by simp
    qed
    with k show ?thesis by blast
  qed
  have three: "\<exists>k. chosenIdx E th title dt 2 = Some k \<and> k < length (vShowInfo th) \<and>
      vShowInfo th ! k = s2"
    if t: "mset (filter (\<lambda>s. movieName s = title \<and>
               toLocalMidnight E (start s) = toLocalMidnight E dt) (vShowInfo th)) = {#s1, s2, s3#} \<and>
          start s1 < start s2 \<and> start s2 < start s3"
  proof -
    from t middle_of_three [OF assms, of s1 s2 s3]
    obtain k where "chosenIdx E th title dt 2 = Some k" "k \<in> set (candidates E th title dt)"
        "vShowInfo th ! k = s2"
      by blast
    then show ?thesis by (auto simp: candidates_iff)
  qed
  from neg big mid three show ?thesis by blast
qed

theorem bookSeats_ordinal_witness:
  "(\<exists>k. chosenIdx utc three_shows ''Inception'' 40000 2 = Some k \<and>
        k < length (vShowInfo three_shows) \<and>
        vShowInfo three_shows ! k = inception 50400 [False, False] 2) \<and>
   bookSeats utc three_shows ''Inception'' 40000 [''A1''] (- 1) = (False, three_shows) \<and>
   bookSeats utc three_shows ''Inception'' 40000 [''A1''] 4 = (False, three_shows)"
  using bookSeats_ordinal [OF three_shows_sorted, of "- 1" "[''A1'']"
      "inception 36000 [False, False] 2" "inception 50400 [False, False] 2"
      "inception 64800 [False, False] 2"]
    bookSeats_ordinal [OF three_shows_sorted, of 4 "[''A1'']"]
    three_shows_filter
  by (simp add: three_shows_candidates inception_start)

section \<open>The seat identifier codec\<close>

lemma digit_val_nonneg: "isdigit c \<Longrightarrow> 0 \<le> digit_val c"
  by (auto simp: isdigit_def digit_val_def)

lemma foldl_digits_nonneg:
  "\<forall>c\<in>set ds. isdigit c \<Longrightarrow> 0 \<le> a \<Longrightarrow> 0 \<le> foldl (\<lambda>a c. 10 * a + digit_val c) a ds"
  by (induction ds arbitrary: a) (simp_all add: digit_val_nonneg)

lemma decimal_value_nonneg: "\<forall>c\<in>set ds. isdigit c \<Longrightarrow> 0 \<le> decimal_value ds"
  by (simp add: decimal_value_def foldl_digits_nonneg)

lemma takeWhile_dropWhile_all: "dropWhile P xs = [] \<Longrightarrow> takeWhile P xs = xs"
  by (induction xs) (auto split: if_splits)

lemma strtol_accept_shape:
  assumes st: "strtol s = (n, [])" and pos: "0 < n"
  shows "\<exists>ws sg ds. s = ws @ sg @ ds \<and> (\<forall>c\<in>set ws. isspace c) \<and> (sg = [] \<or> sg = ''+'') \<and>
           ds \<noteq> [] \<and> (\<forall>c\<in>set ds. isdigit c) \<and> n = min LONG_MAX (decimal_value ds)"
proof -
  let ?ws = "takeWhile isspace s"
  let ?s1 = "dropWhile isspace s"
  have split: "s = ?ws @ ?s1" by simp
  have ws: "\<forall>c\<in>set ?ws. isspace c" by (auto dest: set_takeWhileD)
  show ?thesis
  proof (cases ?s1)
    case Nil
    with st pos show ?thesis by (simp add: strtol_def Let_def)
  next
    case (Cons c r)
    consider (minus) "c = CHR ''-''" | (plus) "c = CHR ''+''" | (other) "c \<noteq> CHR ''-''" "c \<noteq> CHR ''+''"
      by blast
    then show ?thesis
    proof cases
      case minus
      have "0 \<le> decimal_value (takeWhile isdigit r)"
        by (rule decimal_value_nonneg) (auto dest: set_takeWhileD)
      with st pos Cons minus show ?thesis
        by (auto simp: strtol_def Let_def LONG_MIN_def split: if_splits)
    next
      case plus
      with st pos Cons have ne: "takeWhile isdigit r \<noteq> []" and dr: "dropWhile isdigit r = []"
        and n: "n = min LONG_MAX (decimal_value (takeWhile isdigit r))"
        by (auto simp: strtol_def Let_def split: if_splits)
      from dr have all: "takeWhile isdigit r = r" by (rule takeWhile_dropWhile_all)
      with ne n have "r \<noteq> []" "\<forall>c\<in>set r. isdigit c" "n = min LONG_MAX (decimal_value r)"
        using dr by auto
      moreover from split Cons plus have "s = ?ws @ ''+'' @ r" by simp
      ultimately show ?thesis using ws by blast
    next
      case other
      with st pos Cons have ne: "takeWhile isdigit ?s1 \<noteq> []" and dr: "dropWhile isdigit ?s1 = []"
        and n: "n = min LONG_MAX (decimal_value (takeWhile isdigit ?s1))"
        by (auto simp: strtol_def Let_def split: if_splits)
      from dr have all: "takeWhile isdigit ?s1 = ?s1" by (rule takeWhile_dropWhile_all)
      with ne n have "?s1 \<noteq> []" "\<forall>c\<in>set ?s1. isdigit c" "n = min LONG_MAX (decimal_value ?s1)"
        using dr by auto
      moreover from split have "s = ?ws @ [] @ ?s1" by simp
      ultimately show ?thesis using ws by blast
    qed
  qed
qed

lemma seatIndexFromId_accept:
  assumes acc: "seatIndexFromId th sid \<noteq> - 1" and cap: "maxSeats th \<le> INT_MAX"
  shows "\<exists>ws sg ds. c_str sid = (sid ! 0) # ws @ sg @ ds \<and>
           (sid ! 0 = CHR ''A'' \<or> sid ! 0 = CHR ''a'') \<and>
           (\<forall>c\<in>set ws. isspace c) \<and> (sg = [] \<or> sg = ''+'') \<and>
           ds \<noteq> [] \<and> (\<forall>c\<in>set ds. isdigit c) \<and>
           0 < decimal_value ds \<and> decimal_value ds \<le> maxSeats th \<and>
           seatIndexFromId th sid = decimal_value ds - 1"
proof -
  obtain n endp where st: "strtol (tl (c_str sid)) = (n, endp)"
    by (cases "strtol (tl (c_str sid))")
  from acc st have len: "2 \<le> length sid" and letter: "sid ! 0 = CHR ''A'' \<or> sid ! 0 = CHR ''a''"
    and e: "endp = []" and pos: "0 < n" and le: "n \<le> maxSeats th"
    and res: "seatIndexFromId th sid = n - 1"
    by (auto simp: seatIndexFromId_def split: if_splits)
  from len obtain c r where sid: "sid = c # r" by (cases sid) auto
  with letter have cs: "c_str sid = (sid ! 0) # tl (c_str sid)"
    by (auto simp: c_str_def)
  from st e have "strtol (tl (c_str sid)) = (n, [])" by simp
  from strtol_accept_shape [OF this pos]
  obtain ws sg ds where sh: "tl (c_str sid) = ws @ sg @ ds" "\<forall>c\<in>set ws. isspace c"
      "sg = [] \<or> sg = ''+''" "ds \<noteq> []" "\<forall>c\<in>set ds. isdigit c"
      "n = min LONG_MAX (decimal_value ds)"
    by blast
  from le cap have "n < LONG_MAX" by (simp add: INT_MAX_def LONG_MAX_def)
  with sh(6) have "n = decimal_value ds" by (simp add: min_def split: if_splits)
  with pos le res cs sh letter show ?thesis by (metis (no_types, lifting))
qed

lemma makeSeatId_digits: "0 \<le> i \<Longrightarrow> makeSeatId i = CHR ''A'' # digits (nat (i + 1))"
  by (simp add: makeSeatId_def to_string_def)

lemma to_string_digits: "0 \<le> n \<Longrightarrow> to_string n = digits (nat n)"
  by (simp add: to_string_def)

lemma seatIndexFromId_roundtrip:
  assumes "c = CHR ''A'' \<or> c = CHR ''a''" "0 \<le> i" "i < maxSeats th" "maxSeats th \<le> INT_MAX"
  shows "seatIndexFromId th (c # digits (nat (i + 1))) = i"
proof -
  from assms have "min LONG_MAX (i + 1) = i + 1"
    by (simp add: INT_MAX_def LONG_MAX_def)
  with assms seatIndexFromId_letter_to_string [OF assms(1), of th "i + 1"] show ?thesis
    by (simp add: to_string_digits)
qed

lemma seatIndexFromId_out_of_range:
  assumes "c = CHR ''A'' \<or> c = CHR ''a''" "n \<le> 0 \<or> maxSeats th < n" "maxSeats th \<le> INT_MAX"
  shows "seatIndexFromId th (c # to_string n) = - 1"
  using assms seatIndexFromId_letter_to_string [OF assms(1), of th n]
  by (auto simp: INT_MAX_def LONG_MAX_def)

lemma apsara_capacity: "maxSeats apsara \<le> INT_MAX"
  by code_simp

lemma seat_id_runs:
  "makeSeatId 5 = ''A6''" "digits 6 = ''6''" "to_string 7 = ''7''" "to_string 0 = ''0''"
  "seatIndexFromId apsara ''A +3'' = 2" "maxSeats apsara = 6"
  by code_simp+

text \<open>
  What the decoder is proved to do, for a capacity in the range of \<^verbatim>\<open>int\<close>. For every
  index \<open>i\<close> from 0 below the capacity, the identifier of \<open>i\<close> is the letter A followed by
  the decimal digits of \<open>i + 1\<close>, decoding it gives \<open>i\<close> back, also with a lower-case a, and
  distinct indices have distinct identifiers. Decoding gives \<open>- 1\<close> for an identifier
  of fewer than two characters or with another first character, and for the letter
  followed by the decimal of a number that is not positive or is above the capacity.
  Every identifier that decodes to an index consists, up to its first zero byte, of the
  letter, then white space (possibly none), then at most a plus sign, then one or more
  decimal digits whose value is the index plus one.
\<close>

lemma seat_id_codec:
  assumes "maxSeats th \<le> INT_MAX"
  shows "(0 \<le> i \<and> i < maxSeats th \<longrightarrow>
            makeSeatId i = CHR ''A'' # digits (nat (i + 1)) \<and>
            seatIndexFromId th (makeSeatId i) = i \<and>
            seatIndexFromId th (CHR ''a'' # digits (nat (i + 1))) = i) \<and>
         (0 \<le> i \<and> i < maxSeats th \<and> 0 \<le> j \<and> j < maxSeats th \<and> makeSeatId i = makeSeatId j \<longrightarrow>
            i = j) \<and>
         (length sid < 2 \<or> (sid ! 0 \<noteq> CHR ''A'' \<and> sid ! 0 \<noteq> CHR ''a'') \<longrightarrow>
            seatIndexFromId th sid = - 1) \<and>
         ((c = CHR ''A'' \<or> c = CHR ''a'') \<and> (n \<le> 0 \<or> maxSeats th < n) \<longrightarrow>
            seatIndexFromId th (c # to_string n) = - 1) \<and>
         (seatIndexFromId th sid \<noteq> - 1 \<longrightarrow>
            (\<exists>ws sg ds. c_str sid = (sid ! 0) # ws @ sg @ ds \<and>
               (sid ! 0 = CHR ''A'' \<or> sid ! 0 = CHR ''a'') \<and>
               (\<forall>c\<in>set ws. isspace c) \<and> (sg = [] \<or> sg = ''+'') \<and>
               ds \<noteq> [] \<and> (\<forall>c\<in>set ds. isdigit c) \<and>
               0 < decimal_value ds \<and> decimal_value ds \<le> maxSeats th \<and>
               seatIndexFromId th sid = decimal_value ds - 1))"
proof -
  have rt: "makeSeatId i = CHR ''A'' # digits (nat (i + 1)) \<and>
            seatIndexFromId th (makeSeatId i) = i \<and>
            seatIndexFromId th (CHR ''a'' # digits (nat (i + 1))) = i"
    if "0 \<le> i \<and> i < maxSeats th" for i
    using that assms by (simp add: makeSeatId_digits seatIndexFromId_roundtrip)
  have inj: "i = j"
    if "0 \<le> i \<and> i < maxSeats th \<and> 0 \<le> j \<and> j < maxSeats th \<and> makeSeatId i = makeSeatId j"
  proof -
    from that have ri: "0 \<le> i \<and> i < maxSeats th" and rj: "0 \<le> j \<and> j < maxSeats th"
      and e: "makeSeatId i = makeSeatId j" by blast+
    have "i = seatIndexFromId th (makeSeatId i)"
      by (rule rt [OF ri, THEN conjunct2, THEN conjunct1, symmetric])
    also have "\<dots> = seatIndexFromId th (makeSeatId j)" by (simp only: e)
    also have "\<dots> = j"
      by (rule rt [OF rj, THEN conjunct2, THEN conjunct1])
    finally show ?thesis .
  qed
  have letter: "seatIndexFromId th sid = - 1"
    if "length sid < 2 \<or> (sid ! 0 \<noteq> CHR ''A'' \<and> sid ! 0 \<noteq> CHR ''a'')"
    using that by (auto simp: seatIndexFromId_def)
  have range: "seatIndexFromId th (c # to_string n) = - 1"
    if "(c = CHR ''A'' \<or> c = CHR ''a'') \<and> (n \<le> 0 \<or> maxSeats th < n)"
    using that assms by (simp add: seatIndexFromId_out_of_range)
  note shape = seatIndexFromId_accept [OF _ assms, of sid]
  from rt [of i] inj letter range shape show ?thesis by blast
qed

lemma seat_id_codec_run:
  "seatIndexFromId apsara ''A6'' = 5 \<and> seatIndexFromId apsara ''a6'' = 5 \<and>
   seatIndexFromId apsara ''B1'' = - 1 \<and> seatIndexFromId apsara ''A7'' = - 1 \<and>
   seatIndexFromId apsara ''a0'' = - 1 \<and>
   (\<exists>ws sg ds. c_str ''A +3'' = (''A +3'' ! 0) # ws @ sg @ ds \<and>
      (''A +3'' ! 0 = CHR ''A'' \<or> ''A +3'' ! 0 = CHR ''a'') \<and>
      (\<forall>c\<in>set ws. isspace c) \<and> (sg = [] \<or> sg = ''+'') \<and>
      ds \<noteq> [] \<and> (\<forall>c\<in>set ds. isdigit c) \<and>
      0 < decimal_value ds \<and> decimal_value ds \<le> maxSeats apsara \<and>
      seatIndexFromId apsara ''A +3'' = decimal_value ds - 1)"
proof -
  note t1 = seat_id_codec [OF apsara_capacity, where i = 5 and j = 5 and sid = "''B1''"
      and c = "CHR ''A''" and n = 7]
  note t2 = seat_id_codec [OF apsara_capacity, where i = 5 and j = 5 and sid = "''A +3''"
      and c = "CHR ''a''" and n = 0]
  from t1 [THEN conjunct1]
  have a: "seatIndexFromId apsara ''A6'' = 5 \<and> seatIndexFromId apsara ''a6'' = 5"
    by (simp add: seat_id_runs)
  from t1 [THEN conjunct2, THEN conjunct2, THEN conjunct1]
  have b: "seatIndexFromId apsara ''B1'' = - 1"
    by simp
  from t1 [THEN conjunct2, THEN conjunct2, THEN conjunct2, THEN conjunct1]
  have c: "seatIndexFromId apsara ''A7'' = - 1"
    by (simp add: seat_id_runs)
  from t2 [THEN conjunct2, THEN conjunct2, THEN conjunct2, THEN conjunct1]
  have d: "seatIndexFromId apsara ''a0'' = - 1"
    by (simp add: seat_id_runs)
  have "seatIndexFromId apsara ''A +3'' \<noteq> - 1"
    by (simp add: seat_id_runs)
  with t2 [THEN conjunct2, THEN conjunct2, THEN conjunct2, THEN conjunct2]
  have e: "\<exists>ws sg ds. c_str ''A +3'' = (''A +3'' ! 0) # ws @ sg @ ds \<and>
      (''A +3'' ! 0 = CHR ''A'' \<or> ''A +3'' ! 0 = CHR ''a'') \<and>
      (\<forall>c\<in>set ws. isspace c) \<and> (sg = [] \<or> sg = ''+'') \<and>
      ds \<noteq> [] \<and> (\<forall>c\<in>set ds. isdigit c) \<and>
      0 < decimal_value ds \<and> decimal_value ds \<le> maxSeats apsara \<and>
      seatIndexFromId apsara ''A +3'' = decimal_value ds - 1"
    by (rule mp)
  from a b c d e show ?thesis by (intro conjI) (simp_all only:)
qed

text \<open>
  Claim C5 says that decoding returns \<open>- 1\<close> for every identifier with a non-numeric
  suffix. The code breaks it: \<^verbatim>\<open>strtol\<close> skips white space and reads a sign before the
  digits, and it reads the bytes of \<^verbatim>\<open>c_str()\<close> only up to the first zero byte, so that
  the check of \<^verbatim>\<open>*endp\<close> does not see what follows. With six seats, the identifiers
  \<^verbatim>\<open>"A 1"\<close>, \<^verbatim>\<open>"A+1"\<close> and \<^verbatim>\<open>"A1"\<close> followed by a zero byte and an x all decode to index 0,
  though none of the three suffixes is a run of decimal digits.
\<close>

theorem non_numeric_suffix_accepted:
  "\<not> list_all isdigit (tl ''A 1'') \<and> seatIndexFromId apsara ''A 1'' = 0 \<and>
   \<not> list_all isdigit (tl ''A+1'') \<and> seatIndexFromId apsara ''A+1'' = 0 \<and>
   \<not> list_all isdigit (tl [CHR ''A'', CHR ''1'', CHR 0x00, CHR ''x'']) \<and>
   seatIndexFromId apsara [CHR ''A'', CHR ''1'', CHR 0x00, CHR ''x''] = 0"
  by code_simp

section \<open>The free seats of a show\<close>

lemma upto_map_int: "[0..int n - 1] = map int [0..<n]"
  by (rule nth_equalityI) simp_all

lemma upto_capacity: "[0..n - 1] = map int [0..<nat n]"
proof (cases "0 \<le> n")
  case True
  then show ?thesis using upto_map_int [of "nat n"] by simp
next
  case False
  then show ?thesis by simp
qed

lemma freeIdsFrom_eq:
  "freeIdsFrom i n tk =
     map makeSeatId (filter (\<lambda>j. j < int (length tk) \<and> \<not> tk ! nat j) [i..n - 1])"
proof (induction i n tk rule: freeIdsFrom.induct)
  case (1 i n tk)
  show ?case
  proof (cases "i < n")
    case True
    then have "[i..n - 1] = i # [i + 1..n - 1]" by (simp add: upto_rec1)
    with True "1.IH" show ?thesis
      by (subst freeIdsFrom.simps) simp
  next
    case False
    then show ?thesis by (subst freeIdsFrom.simps) simp
  qed
qed

lemma availableSeatIds_find:
  "availableSeatIds th title t =
     (case find (\<lambda>s. movieName s = title \<and> start s = t) (vShowInfo th) of
        None \<Rightarrow> Inr []
      | Some s \<Rightarrow> if maxSeats th < 0 then Inl Length_error
                  else Inr (freeIdsFrom 0 (maxSeats th) (taken s)))"
proof -
  have "availableSeatIds_loop n title t ss =
     (case find (\<lambda>s. movieName s = title \<and> start s = t) ss of
        None \<Rightarrow> Inr []
      | Some s \<Rightarrow> if n < 0 then Inl Length_error else Inr (freeIdsFrom 0 n (taken s)))"
    for n and ss :: "'a ShowInfo list"
    by (induction ss) simp_all
  then show ?thesis by (simp add: availableSeatIds_def)
qed

lemma freeIdsFrom_sized:
  assumes "length tk = nat n"
  shows "freeIdsFrom 0 n tk = map (\<lambda>j. makeSeatId (int j)) (filter (\<lambda>j. \<not> tk ! j) [0..<length tk])"
proof -
  have "filter (\<lambda>j. j < int (length tk) \<and> \<not> tk ! nat j) (map int [0..<nat n]) =
      map int (filter (\<lambda>j. \<not> tk ! j) [0..<nat n])"
  proof -
    have "filter (\<lambda>j. int j < int (length tk) \<and> \<not> tk ! j) [0..<nat n] =
        filter (\<lambda>j. \<not> tk ! j) [0..<nat n]"
      using assms by (intro filter_cong) auto
    then show ?thesis by (simp add: filter_map comp_def)
  qed
  then show ?thesis
    using assms by (simp add: freeIdsFrom_eq upto_capacity comp_def)
qed


lemma find_in_set: "find P xs = Some x \<Longrightarrow> x \<in> set xs \<and> P x"
  by (induction xs) (auto split: if_splits)


lemma seats_sized_new: "seats_sized (new_Theater name seats)"
  by (simp add: seats_sized_def new_Theater_def)

lemma seats_sized_add:
  "seats_sized th \<Longrightarrow> addShowInfo th name t pr = Inr th' \<Longrightarrow> seats_sized th'"
  by (auto simp: seats_sized_def addShowInfo_def Let_def split: if_splits)

lemma seats_sized_add_thrown:
  "seats_sized th \<Longrightarrow> addShowInfo th name t pr = Inl (e, th') \<Longrightarrow> seats_sized th'"
  by (auto simp: seats_sized_def addShowInfo_def Let_def split: if_splits)

lemma seats_sized_book:
  assumes "seats_sized th" "bookSeats E th title dt seatIds show_no = (ok, th')"
  shows "seats_sized th'"
proof (cases ok)
  case False
  with assms(2) have "th' = th" using bookSeats_False [of E th title dt seatIds show_no th'] by simp
  with assms(1) show ?thesis by simp
next
  case True
  with assms(2) obtain k where k: "k < length (vShowInfo th)"
      "th' = booked th k (map (seatIndexFromId th) seatIds)"
    using bookSeats_True [of E th title dt seatIds show_no th'] by auto
  have "length (taken s) = nat (maxSeats th')" if "s \<in> set (vShowInfo th')" for s
  proof -
    from that k have "s \<in> set ((vShowInfo th)[k := (vShowInfo th ! k)
        \<lparr>taken := markTaken (taken (vShowInfo th ! k)) (map (seatIndexFromId th) seatIds),
         freeTickets := freeTickets (vShowInfo th ! k) - int (length (map (seatIndexFromId th) seatIds))\<rparr>])"
      by (simp add: booked_def)
    then have "s \<in> set (vShowInfo th) \<or> s = (vShowInfo th ! k)
        \<lparr>taken := markTaken (taken (vShowInfo th ! k)) (map (seatIndexFromId th) seatIds),
         freeTickets := freeTickets (vShowInfo th ! k) - int (length (map (seatIndexFromId th) seatIds))\<rparr>"
      using set_update_subset_insert [of "vShowInfo th" k] by blast
    moreover from k(1) have "vShowInfo th ! k \<in> set (vShowInfo th)" by simp
    ultimately show ?thesis
      using assms(1) k(2) by (auto simp: seats_sized_def booked_def markTaken_length)
  qed
  then show ?thesis by (simp add: seats_sized_def)
qed

lemma stage2_sized: "seats_sized stage2"
  by code_simp

lemma stage2_find:
  "find (\<lambda>s. movieName s = ''Inception'' \<and> start s = 64800) (vShowInfo stage2) =
     Some (inception 64800 [True, False] 1)"
  "find (\<lambda>s. movieName s = ''Tenet'' \<and> start s = 64800) (vShowInfo stage2) = None"
  by code_simp+

lemma stage2_free: "map (\<lambda>j. makeSeatId (int j))
     (filter (\<lambda>j. \<not> taken (inception 64800 [True, False] 1) ! j)
        [0..<length (taken (inception 64800 [True, False] 1))]) = [''A2'']"
  by code_simp


lemma stage2_capacity: "0 \<le> maxSeats stage2"
  by code_simp

text \<open>
  Claim C7, as amended. In a theater of capacity at least 0 whose seat maps have the
  size of the capacity (every such theater built by \<open>new_Theater\<close>, \<open>addShowInfo\<close> and
  \<open>bookSeats\<close>), \<open>availableSeatIds\<close> throws nothing, looks up the first show, in the order
  of the vector, whose title and start are exactly the given ones, and returns the
  identifiers of the indices whose seat map entry is false, in ascending order of the
  index. It returns the empty list when no show matches and when no seat of the show is
  free. It is a function of the theater that returns the list only: no state is
  changed.
\<close>

theorem availableSeatIds_free_seats:
  assumes "0 \<le> maxSeats th" and "seats_sized th"
  shows "availableSeatIds th title t =
           Inr (case find (\<lambda>s. movieName s = title \<and> start s = t) (vShowInfo th) of
                  None \<Rightarrow> []
                | Some s \<Rightarrow> map (\<lambda>j. makeSeatId (int j))
                             (filter (\<lambda>j. \<not> taken s ! j) [0..<length (taken s)])) \<and>
         (find (\<lambda>s. movieName s = title \<and> start s = t) (vShowInfo th) = None \<longrightarrow>
            availableSeatIds th title t = Inr []) \<and>
         (find (\<lambda>s. movieName s = title \<and> start s = t) (vShowInfo th) = Some s \<and>
          (\<forall>j<length (taken s). taken s ! j) \<longrightarrow>
            availableSeatIds th title t = Inr [])"
proof -
  from assms(1) have cap: "\<not> maxSeats th < 0" by simp
  have eq: "availableSeatIds th title t =
           Inr (case find (\<lambda>s. movieName s = title \<and> start s = t) (vShowInfo th) of
                  None \<Rightarrow> []
                | Some s \<Rightarrow> map (\<lambda>j. makeSeatId (int j))
                             (filter (\<lambda>j. \<not> taken s ! j) [0..<length (taken s)]))"
  proof (cases "find (\<lambda>s. movieName s = title \<and> start s = t) (vShowInfo th)")
    case None
    then show ?thesis by (simp only: availableSeatIds_find option.case)
  next
    case (Some s)
    from find_in_set [OF Some] have "s \<in> set (vShowInfo th)" ..
    with assms(2) have l: "length (taken s) = nat (maxSeats th)" by (simp add: seats_sized_def)
    have "availableSeatIds th title t = Inr (freeIdsFrom 0 (maxSeats th) (taken s))"
      by (simp only: availableSeatIds_find Some option.case cap if_False)
    also have "freeIdsFrom 0 (maxSeats th) (taken s) = map (\<lambda>j. makeSeatId (int j))
        (filter (\<lambda>j. \<not> taken s ! j) [0..<length (taken s)])"
      by (rule freeIdsFrom_sized [OF l])
    finally show ?thesis by (simp only: Some option.case)
  qed
  have full: "availableSeatIds th title t = Inr []"
    if "find (\<lambda>s. movieName s = title \<and> start s = t) (vShowInfo th) = Some s \<and>
        (\<forall>j<length (taken s). taken s ! j)"
  proof -
    from that have "filter (\<lambda>j. \<not> taken s ! j) [0..<length (taken s)] = []"
      by (simp add: filter_empty_conv)
    moreover from that
    have "find (\<lambda>s. movieName s = title \<and> start s = t) (vShowInfo th) = Some s" ..
    ultimately show ?thesis by (simp only: eq option.case list.map)
  qed
  have none: "availableSeatIds th title t = Inr []"
    if "find (\<lambda>s. movieName s = title \<and> start s = t) (vShowInfo th) = None"
    using that by (simp only: eq option.case)
  from none full show ?thesis by (intro conjI impI eq)
qed

theorem availableSeatIds_free_seats_witness:
  "availableSeatIds stage2 ''Inception'' 64800 = Inr [''A2''] \<and>
   availableSeatIds stage2 ''Tenet'' 64800 = Inr []"
  using availableSeatIds_free_seats [OF stage2_capacity stage2_sized, of "''Inception''" 64800]
    availableSeatIds_free_seats [OF stage2_capacity stage2_sized, of "''Tenet''" 64800]
  by (simp add: stage2_find stage2_free)

text \<open>
  Without the bound on the capacity the statement fails. A theater can be built with
  a negative capacity; \<open>addShowInfo\<close> then throws after it has appended the show, whose
  seat map is empty, so that no seat of it is free. The query for that show does not
  return the empty list: it throws \<^verbatim>\<open>std::length_error\<close>.
\<close>

theorem negative_capacity_query_throws:
  "addShowInfo (new_Theater ''Apsara'' (- 1)) ''Inception'' 64800 () =
     Inl (Length_error, minus_one) \<and>
   seats_sized minus_one \<and>
   find (\<lambda>s. movieName s = ''Inception'' \<and> start s = 64800) (vShowInfo minus_one) =
     Some (inception 64800 [] (- 1)) \<and>
   freeCount (taken (inception 64800 [] (- 1))) = 0 \<and>
   availableSeatIds minus_one ''Inception'' 64800 = Inl Length_error"
  by code_simp




section \<open>The free count\<close>

lemma freeCount_card: "freeCount tk = card {j. j < length tk \<and> \<not> tk ! j}"
  by (simp add: freeCount_def length_filter_conv_card)

lemma freeCount_markTaken:
  assumes ok: "\<forall>i\<in>set idxs. 0 \<le> i \<and> i < int (length tk) \<and> \<not> tk ! nat i"
  shows "freeCount (markTaken tk idxs) + card (set idxs) = freeCount tk"
proof -
  let ?A = "{j. j < length tk \<and> \<not> tk ! j}"
  let ?B = "nat ` set idxs"
  have sub: "?B \<subseteq> ?A" using ok by auto
  have fin: "finite ?A" by simp
  have "inj_on nat (set idxs)"
  proof (rule inj_onI)
    fix x y assume "x \<in> set idxs" "y \<in> set idxs" "nat x = nat y"
    with ok have "0 \<le> x" "0 \<le> y" "nat x = nat y" by auto
    then show "x = y" by simp
  qed
  then have cB: "card ?B = card (set idxs)" by (rule card_image)
  have "{j. j < length (markTaken tk idxs) \<and> \<not> markTaken tk idxs ! j} = ?A - ?B"
    by (auto simp: markTaken_length markTaken_nth)
  then have "freeCount (markTaken tk idxs) = card (?A - ?B)"
    by (simp only: freeCount_card)
  also have "\<dots> = card ?A - card ?B"
    using sub by (intro card_Diff_subset) (simp_all add: finite_subset [OF sub fin])
  finally have "freeCount (markTaken tk idxs) + card ?B = card ?A"
    using card_mono [OF fin sub] by simp
  then show ?thesis by (simp only: cB freeCount_card)
qed

lemma chosenIdx_candidate:
  assumes ch: "chosenIdx E th title dt show_no = Some k"
    and srt: "show_no \<noteq> 0 \<longrightarrow> sorts_candidates E th title dt"
  shows "k \<in> set (candidates E th title dt)"
    and "show_no = 0 \<longrightarrow>
      h (hour_min_local E (start (vShowInfo th ! k))) = h (hour_min_local E dt) \<and>
      m (hour_min_local E (start (vShowInfo th ! k))) = m (hour_min_local E dt)"
proof -
  have tm: "k < length (vShowInfo th) \<and> time_match E th title dt k" if "show_no = 0"
    using ch that by (simp add: chosenIdx_time_match_find find_upt_Some)
  show "show_no = 0 \<longrightarrow>
      h (hour_min_local E (start (vShowInfo th ! k))) = h (hour_min_local E dt) \<and>
      m (hour_min_local E (start (vShowInfo th ! k))) = m (hour_min_local E dt)"
    using tm by (simp add: time_match_def)
  show "k \<in> set (candidates E th title dt)"
  proof (cases "show_no = 0")
    case True
    with tm show ?thesis by (simp add: candidates_iff time_match_def)
  next
    case False
    with srt have s: "sorts_candidates E th title dt" by simp
    from ch False have pos: "0 < show_no"
      using chosenIdx_negative [of show_no E th title dt] by (cases "show_no < 0") auto
    have le: "show_no \<le> int (length (candidates E th title dt))"
    proof (rule ccontr)
      assume "\<not> show_no \<le> int (length (candidates E th title dt))"
      then have "int (length (candidates E th title dt)) < show_no" by simp
      from chosenIdx_ordinal(1) [OF s pos this] ch show False by simp
    qed
    from chosenIdx_ordinal(2) [OF s pos le] ch show ?thesis by auto
  qed
qed

lemma stage1_runs:
  "[''A1'', ''A1''] \<noteq> []"
  "chosenIdx utc stage1 ''Inception'' 64800 1 = Some 0"
  "\<forall>sid\<in>set [''A1'', ''A1'']. seat_ok stage1 (taken (vShowInfo stage1 ! 0)) sid"
  "\<not> distinct [''A1'', ''A1'']"
  "freeTickets (vShowInfo stage1 ! 0) = 2"
  "freeCount (taken (vShowInfo stage1 ! 0)) = 2"
  by code_simp+

lemma stage1_sorted: "(1::int) \<noteq> 0 \<longrightarrow> sorts_candidates utc stage1 ''Inception'' 64800"
  by code_simp

text \<open>
  Claim C10. \<open>bookSeats\<close> does not remove repeated identifiers. When the show resolves
  (on a platform whose \<^verbatim>\<open>std::sort\<close> sorts, in ordinal mode) and every entry of a
  non-empty request decodes to a free seat of it, the call returns true, the seat map
  is set at exactly the requested indices, the number of free seats drops by the number
  of distinct indices, and \<open>freeTickets\<close> drops by the length of the list, which is larger
  when an identifier is repeated.
\<close>

theorem bookSeats_repeated_ids:
  assumes ne: "seatIds \<noteq> []"
    and ch: "chosenIdx E th title dt show_no = Some k"
    and srt: "show_no \<noteq> 0 \<longrightarrow> sorts_candidates E th title dt"
    and free: "\<forall>sid\<in>set seatIds. seat_ok th (taken (vShowInfo th ! k)) sid"
  shows "\<exists>th'. bookSeats E th title dt seatIds show_no = (True, th') \<and>
           freeTickets (vShowInfo th' ! k) = freeTickets (vShowInfo th ! k) - int (length seatIds) \<and>
           int (freeCount (taken (vShowInfo th' ! k))) =
             int (freeCount (taken (vShowInfo th ! k))) - int (card (seatIndexFromId th ` set seatIds)) \<and>
           (\<forall>j<length (taken (vShowInfo th ! k)).
              taken (vShowInfo th' ! k) ! j =
                (taken (vShowInfo th ! k) ! j \<or> int j \<in> seatIndexFromId th ` set seatIds)) \<and>
           (\<not> distinct seatIds \<longrightarrow> card (seatIndexFromId th ` set seatIds) < length seatIds)"
proof -
  let ?idxs = "map (seatIndexFromId th) seatIds"
  let ?tk = "taken (vShowInfo th ! k)"
  let ?th = "booked th k ?idxs"
  note c = chosenIdx_candidate [OF ch srt]
  from c(1) have k: "k < length (vShowInfo th)" by (simp add: candidates_iff)
  from bookSeats_resolved [OF ne ch c] free
  have b: "bookSeats E th title dt seatIds show_no = (True, ?th)" by simp
  from k have nth: "vShowInfo ?th ! k = (vShowInfo th ! k)
      \<lparr>taken := markTaken ?tk ?idxs, freeTickets := freeTickets (vShowInfo th ! k) - int (length ?idxs)\<rparr>"
    by (simp add: booked_def)
  have ft: "freeTickets (vShowInfo ?th ! k) = freeTickets (vShowInfo th ! k) - int (length seatIds)"
    by (simp add: nth)
  have tk: "taken (vShowInfo ?th ! k) = markTaken ?tk ?idxs"
    by (simp add: nth)
  from free have ok: "\<forall>i\<in>set ?idxs. 0 \<le> i \<and> i < int (length ?tk) \<and> \<not> ?tk ! nat i"
    by (simp add: seat_ok_def)
  from freeCount_markTaken [OF ok]
  have fc: "int (freeCount (taken (vShowInfo ?th ! k))) =
      int (freeCount ?tk) - int (card (seatIndexFromId th ` set seatIds))"
    by (simp add: tk)
  have mem: "j \<in> nat ` seatIndexFromId th ` set seatIds \<longleftrightarrow> int j \<in> seatIndexFromId th ` set seatIds"
    for j
  proof
    assume "j \<in> nat ` seatIndexFromId th ` set seatIds"
    then obtain i where "i \<in> seatIndexFromId th ` set seatIds" "j = nat i" by blast
    with ok show "int j \<in> seatIndexFromId th ` set seatIds" by auto
  next
    assume "int j \<in> seatIndexFromId th ` set seatIds"
    then have "nat (int j) \<in> nat ` seatIndexFromId th ` set seatIds" by (rule imageI)
    then show "j \<in> nat ` seatIndexFromId th ` set seatIds" by simp
  qed
  have fl: "\<forall>j<length ?tk. taken (vShowInfo ?th ! k) ! j =
      (?tk ! j \<or> int j \<in> seatIndexFromId th ` set seatIds)"
    using markTaken_nth [of _ ?tk ?idxs] by (simp add: tk mem)
  have dup: "card (seatIndexFromId th ` set seatIds) < length seatIds" if "\<not> distinct seatIds"
  proof -
    have "card (seatIndexFromId th ` set seatIds) \<le> card (set seatIds)"
      by (rule card_image_le) simp
    also from that have "card (set seatIds) < length seatIds"
      using card_length [of seatIds] distinct_card [of seatIds] card_distinct [of seatIds]
      by (cases "card (set seatIds) = length seatIds") auto
    finally show ?thesis .
  qed
  from b ft fc fl dup show ?thesis by blast
qed

theorem bookSeats_repeated_ids_witness:
  "\<exists>th'. bookSeats utc stage1 ''Inception'' 64800 [''A1'', ''A1''] 1 = (True, th') \<and>
     freeTickets (vShowInfo th' ! 0) = 0 \<and>
     int (freeCount (taken (vShowInfo th' ! 0))) =
        2 - int (card (seatIndexFromId stage1 ` set [''A1'', ''A1''])) \<and>
     card (seatIndexFromId stage1 ` set [''A1'', ''A1'']) < 2"
proof -
  from bookSeats_repeated_ids [OF stage1_runs(1) stage1_runs(2) stage1_sorted stage1_runs(3)]
  obtain th' where "bookSeats utc stage1 ''Inception'' 64800 [''A1'', ''A1''] 1 = (True, th')"
    "freeTickets (vShowInfo th' ! 0) = freeTickets (vShowInfo stage1 ! 0) - int (length [''A1'', ''A1''])"
    "int (freeCount (taken (vShowInfo th' ! 0))) =
       int (freeCount (taken (vShowInfo stage1 ! 0))) - int (card (seatIndexFromId stage1 ` set [''A1'', ''A1'']))"
    "\<not> distinct [''A1'', ''A1''] \<longrightarrow> card (seatIndexFromId stage1 ` set [''A1'', ''A1'']) < length [''A1'', ''A1'']"
    by blast
  then show ?thesis
    using stage1_runs(4,5,6) by (intro exI [of _ th']) simp
qed

text \<open>
  Where no index is repeated the booking keeps \<open>freeTickets\<close> equal to the number of free
  seats, and so does adding a show.
\<close>

lemma free_count_kept_by_add:
  assumes "\<forall>s\<in>set (vShowInfo th). freeTickets s = int (freeCount (taken s))"
    and "addShowInfo th name t pr = Inr th'"
  shows "\<forall>s\<in>set (vShowInfo th'). freeTickets s = int (freeCount (taken s))"
  using assms by (auto simp: addShowInfo_def Let_def freeCount_def split: if_splits)

lemma free_count_kept_by_distinct_booking:
  assumes inv: "\<forall>s\<in>set (vShowInfo th). freeTickets s = int (freeCount (taken s))"
    and b: "bookSeats E th title dt seatIds show_no = (ok, th')"
    and d: "distinct (map (seatIndexFromId th) seatIds)"
  shows "\<forall>s\<in>set (vShowInfo th'). freeTickets s = int (freeCount (taken s))"
proof (cases ok)
  case False
  with b have "th' = th" using bookSeats_False [of E th title dt seatIds show_no th'] by simp
  with inv show ?thesis by simp
next
  case True
  let ?idxs = "map (seatIndexFromId th) seatIds"
  from True b have "bookSeats E th title dt seatIds show_no = (True, th')" by simp
  from bookSeats_True [OF this]
  obtain k where k: "k < length (vShowInfo th)"
      "\<forall>sid\<in>set seatIds. seat_ok th (taken (vShowInfo th ! k)) sid"
      "th' = booked th k ?idxs"
    by blast
  let ?tk = "taken (vShowInfo th ! k)"
  let ?new = "(vShowInfo th ! k)\<lparr>taken := markTaken ?tk ?idxs,
      freeTickets := freeTickets (vShowInfo th ! k) - int (length ?idxs)\<rparr>"
  from k(2) have ok: "\<forall>i\<in>set ?idxs. 0 \<le> i \<and> i < int (length ?tk) \<and> \<not> ?tk ! nat i"
    by (simp add: seat_ok_def)
  from d have "card (set ?idxs) = length ?idxs" by (rule distinct_card)
  with freeCount_markTaken [OF ok]
  have "int (freeCount (markTaken ?tk ?idxs)) = int (freeCount ?tk) - int (length ?idxs)"
    by linarith
  moreover from k(1) inv have "freeTickets (vShowInfo th ! k) = int (freeCount ?tk)" by simp
  ultimately have new: "freeTickets ?new = int (freeCount (taken ?new))" by simp
  show ?thesis
  proof
    fix s assume "s \<in> set (vShowInfo th')"
    with k(3) have "s \<in> set ((vShowInfo th)[k := ?new])" by (simp add: booked_def)
    then have "s \<in> set (vShowInfo th) \<or> s = ?new"
      using set_update_subset_insert [of "vShowInfo th" k ?new] by blast
    with inv new show "freeTickets s = int (freeCount (taken s))" by blast
  qed
qed

text \<open>
  Claim C2 says that \<open>freeTickets\<close> equals the number of false entries of the seat map
  after every \<open>addShowInfo\<close> and \<open>bookSeats\<close>. The code breaks it: in a theater of two
  seats, after one show is added the two agree, and after the request A1, A1 is booked
  \<open>bookSeats\<close> has returned true, \<open>freeTickets\<close> is 0 and one seat is still free.
\<close>

theorem repeated_id_breaks_free_count:
  "addShowInfo (new_Theater ''Apsara'' 2) ''Inception'' 64800 () = Inr stage1 \<and>
   freeTickets (vShowInfo stage1 ! 0) = int (freeCount (taken (vShowInfo stage1 ! 0))) \<and>
   bookSeats utc stage1 ''Inception'' 64800 [''A1'', ''A1''] 0 =
     (True, stage1\<lparr>vShowInfo := [inception 64800 [True, False] 0]\<rparr>) \<and>
   freeTickets (inception 64800 [True, False] 0) = 0 \<and>
   freeCount (taken (inception 64800 [True, False] 0)) = 1"
  by code_simp

end
